theory Spec2Isabelle
  imports Complex_Main "HOL-Library.AList" "HOL-Library.Multiset" "HOL-Library.Word"
begin

section \<open>Hybrid retrieval: data model\<close>

text \<open>
  The development follows \<^verbatim>\<open>app/rag/hybrid_retriever.py\<close>.

  A Python \<^verbatim>\<open>str\<close> is a sequence of Unicode code points, so it is a list of
  natural numbers here: \<^verbatim>\<open>len\<close> and the slice \<^verbatim>\<open>[:100]\<close> count code points.
  In the fusion and the reranking Python floats are read as exact real numbers;
  rounding and the special float values are outside the model there. The constructor
  leaves the arithmetic of its numbers abstract.
\<close>

type_synonym pystr = "nat list"

text \<open>\<^verbatim>\<open>Document\<close>: the text of a chunk and its metadata mapping.\<close>

record document =
  page_content :: pystr
  metadata :: "(pystr \<times> pystr) list"

text \<open>
  The exceptions the module runs into: the division by zero, and the \<^verbatim>\<open>ValueError\<close>
  with which a pydantic model refuses the assignment to an attribute that is not one
  of its fields.
\<close>

datatype py_error = ZeroDivisionError | ValueError

text \<open>
  The configuration the methods of a \<^verbatim>\<open>HybridRetriever\<close> read from \<^verbatim>\<open>self\<close>,
  besides the two backends, which are passed to the operations that call them. The
  type of the weights is a parameter: the methods read them as real numbers.
\<close>

record 'f hybrid_retriever =
  vector_weight :: 'f
  bm25_weight :: 'f
  k :: int

section \<open>Construction\<close>

text \<open>
  \<^verbatim>\<open>HybridRetriever\<close> derives from \<^verbatim>\<open>BaseRetriever\<close> of \<^verbatim>\<open>langchain_core\<close>,
  which is a pydantic model. The fields of such a model are the annotated attributes
  of its class body and of its bases. \<^verbatim>\<open>BaseRetriever\<close> and its bases declare
  \<^verbatim>\<open>name\<close>, \<^verbatim>\<open>tags\<close> and \<^verbatim>\<open>metadata\<close>; the class body of
  \<^verbatim>\<open>HybridRetriever\<close> has no annotated attribute, so it adds none.
\<close>

definition BaseRetriever_fields :: "string list" where
  "BaseRetriever_fields = [''name'', ''tags'', ''metadata'']"

definition HybridRetriever_fields :: "string list" where
  "HybridRetriever_fields = BaseRetriever_fields @ []"

text \<open>
  \<^verbatim>\<open>self.name = value\<close> on a pydantic model: the assignment to a name that is not
  a field raises \<^verbatim>\<open>ValueError\<close>. Only the outcome is modelled, not the store.
\<close>

definition setattr :: "string list \<Rightarrow> string \<Rightarrow> py_error + unit" where
  "setattr declared name = (if name \<in> set declared then Inr () else Inl ValueError)"

text \<open>
  The operations on Python numbers the constructor uses, as parameters: sum,
  difference, quotient by a divisor that is not zero, absolute value, the test
  \<^verbatim>\<open>>\<close>, the test for zero that decides whether a division raises, and the value
  of a literal.
\<close>

record 'f float_ops =
  fl_add :: "'f \<Rightarrow> 'f \<Rightarrow> 'f"
  fl_sub :: "'f \<Rightarrow> 'f \<Rightarrow> 'f"
  fl_div :: "'f \<Rightarrow> 'f \<Rightarrow> 'f"
  fl_abs :: "'f \<Rightarrow> 'f"
  fl_gt :: "'f \<Rightarrow> 'f \<Rightarrow> bool"
  fl_is_zero :: "'f \<Rightarrow> bool"
  fl_lit :: "rat \<Rightarrow> 'f"

text \<open>
  \<^verbatim>\<open>HybridRetriever.__init__\<close>, statement by statement after
  \<^verbatim>\<open>super().__init__()\<close>: five attribute assignments, then the sum of the weights
  and, when it is further than \<^verbatim>\<open>1e-6\<close> from one, the two assignments of the
  weights divided by the sum; each quotient is computed before it is assigned, and
  raises when the sum is zero. Nothing inspects \<^verbatim>\<open>k\<close>. A statement that raises
  ends the constructor.
\<close>

definition HybridRetriever_init ::
  "'f float_ops \<Rightarrow> 'f \<Rightarrow> 'f \<Rightarrow> int \<Rightarrow> py_error + 'f hybrid_retriever" where
  "HybridRetriever_init ops vw bw n =
     (case setattr HybridRetriever_fields ''vectorstore'' of Inl e \<Rightarrow> Inl e | Inr _ \<Rightarrow>
      case setattr HybridRetriever_fields ''bm25_retriever'' of Inl e \<Rightarrow> Inl e | Inr _ \<Rightarrow>
      case setattr HybridRetriever_fields ''vector_weight'' of Inl e \<Rightarrow> Inl e | Inr _ \<Rightarrow>
      case setattr HybridRetriever_fields ''bm25_weight'' of Inl e \<Rightarrow> Inl e | Inr _ \<Rightarrow>
      case setattr HybridRetriever_fields ''k'' of Inl e \<Rightarrow> Inl e | Inr _ \<Rightarrow>
        let total_weight = fl_add ops vw bw in
        if fl_gt ops (fl_abs ops (fl_sub ops total_weight (fl_lit ops 1)))
             (fl_lit ops (1 / 1000000))
        then
          if fl_is_zero ops total_weight then Inl ZeroDivisionError
          else
            case setattr HybridRetriever_fields ''vector_weight'' of Inl e \<Rightarrow> Inl e | Inr _ \<Rightarrow>
            case setattr HybridRetriever_fields ''bm25_weight'' of Inl e \<Rightarrow> Inl e | Inr _ \<Rightarrow>
              Inr \<lparr>vector_weight = fl_div ops vw total_weight,
                   bm25_weight = fl_div ops bw total_weight, k = n\<rparr>
        else Inr \<lparr>vector_weight = vw, bm25_weight = bw, k = n\<rparr>)"

section \<open>Fusion of the two result lists\<close>

text \<open>
  \<^verbatim>\<open>_get_doc_id\<close> applies the built-in \<^verbatim>\<open>hash\<close> to the first hundred
  characters of the content. The built-in belongs to the interpreter, not to the
  module, and for strings it is keyed by a secret the interpreter draws when the
  process starts. It is therefore a parameter \<open>h\<close> of everything that computes an
  identity: one \<open>h\<close> stands for one run of the program.
\<close>

definition get_doc_id :: "(pystr \<Rightarrow> int) \<Rightarrow> document \<Rightarrow> int" where
  "get_doc_id h d = (let content_preview = take 100 (page_content d) in h content_preview)"

text \<open>The inner dictionary \<^verbatim>\<open>{'doc', 'vector_score', 'bm25_score'}\<close>.\<close>

record score_entry =
  doc :: document
  vector_score :: real
  bm25_score :: real

text \<open>
  \<^verbatim>\<open>doc_scores\<close> is a Python dictionary, which keeps its keys in the order of
  their first insertion; the later loop over its items and the stable sort make that
  order observable. It is an association list with distinct keys, and
  \<^verbatim>\<open>doc_scores[doc_id] = v\<close> is \<^const>\<open>AList.update\<close>: the value of a present key
  is replaced where it stands, a new key goes to the end.
\<close>

type_synonym doc_scores = "(int \<times> score_entry) list"

text \<open>
  The loop over the vector hits. The float division \<^verbatim>\<open>1.0 / (1.0 + score)\<close>
  raises when the distance is \<open>-1\<close>.
\<close>

fun vector_loop :: "(pystr \<Rightarrow> int) \<Rightarrow> (document \<times> real) list \<Rightarrow> doc_scores \<Rightarrow> py_error + doc_scores" where
  "vector_loop h [] doc_scores = Inr doc_scores"
| "vector_loop h ((d, score) # rest) doc_scores =
     (let doc_id = get_doc_id h d in
      if 1 + score = 0 then Inl ZeroDivisionError
      else
        let normalized_score = 1 / (1 + score) in
        vector_loop h rest
          (AList.update doc_id
             \<lparr>doc = d, vector_score = normalized_score, bm25_score = 0\<rparr> doc_scores))"

text \<open>The loop over \<^verbatim>\<open>enumerate(bm25_docs)\<close>; \<open>i\<close> is the running index.\<close>

fun bm25_loop :: "(pystr \<Rightarrow> int) \<Rightarrow> nat \<Rightarrow> document list \<Rightarrow> doc_scores \<Rightarrow> doc_scores" where
  "bm25_loop h i [] doc_scores = doc_scores"
| "bm25_loop h i (d # rest) doc_scores =
     (let doc_id = get_doc_id h d;
          rank_score = 1 / (real i + 1) in
      bm25_loop h (i + 1) rest
        (case map_of doc_scores doc_id of
           Some scores \<Rightarrow> AList.update doc_id (scores\<lparr>bm25_score := rank_score\<rparr>) doc_scores
         | None \<Rightarrow>
             AList.update doc_id
               \<lparr>doc = d, vector_score = 0, bm25_score = rank_score\<rparr> doc_scores))"

text \<open>The dictionary after both loops.\<close>

definition build_doc_scores ::
  "(pystr \<Rightarrow> int) \<Rightarrow> (document \<times> real) list \<Rightarrow> document list \<Rightarrow> py_error + doc_scores" where
  "build_doc_scores h vector_docs bm25_docs =
     (case vector_loop h vector_docs [] of
        Inl e \<Rightarrow> Inl e
      | Inr doc_scores \<Rightarrow> Inr (bm25_loop h 0 bm25_docs doc_scores))"

definition combined_score :: "real hybrid_retriever \<Rightarrow> score_entry \<Rightarrow> real" where
  "combined_score self scores =
     vector_weight self * vector_score scores + bm25_weight self * bm25_score scores"

text \<open>
  \<^verbatim>\<open>scored_docs\<close> after \<^verbatim>\<open>scored_docs.sort(key=lambda x: x[1], reverse=True)\<close>.
  The sort of Python is stable, also with \<^verbatim>\<open>reverse=True\<close>: entries of equal score
  keep their order. \<^const>\<open>sort_key\<close> is a stable insertion sort, here on the negated
  score.
\<close>

definition ranked_docs ::
  "real hybrid_retriever \<Rightarrow> (pystr \<Rightarrow> int) \<Rightarrow> (document \<times> real) list \<Rightarrow> document list
     \<Rightarrow> py_error + (document \<times> real) list" where
  "ranked_docs self h vector_docs bm25_docs =
     (case build_doc_scores h vector_docs bm25_docs of
        Inl e \<Rightarrow> Inl e
      | Inr doc_scores \<Rightarrow>
          Inr (sort_key (\<lambda>x. - snd x)
                 (map (\<lambda>(doc_id, scores). (doc scores, combined_score self scores)) doc_scores)))"

text \<open>\<^verbatim>\<open>_combine_results\<close>; it does not use its \<^verbatim>\<open>query\<close> argument.\<close>

definition combine_results ::
  "real hybrid_retriever \<Rightarrow> (pystr \<Rightarrow> int) \<Rightarrow> (document \<times> real) list \<Rightarrow> document list \<Rightarrow> pystr
     \<Rightarrow> py_error + document list" where
  "combine_results self h vector_docs bm25_docs query =
     (case ranked_docs self h vector_docs bm25_docs of
        Inl e \<Rightarrow> Inl e
      | Inr scored_docs \<Rightarrow> Inr (map fst scored_docs))"

text \<open>
  The slice \<^verbatim>\<open>xs[:n]\<close>: the first \<open>n\<close> elements, and for a negative \<open>n\<close> all
  but the last \<open>-n\<close>.
\<close>

definition slice_to :: "'a list \<Rightarrow> int \<Rightarrow> 'a list" where
  "slice_to xs n = (if 0 \<le> n then take (nat n) xs else take (nat (int (length xs) + n)) xs)"

text \<open>
  \<^verbatim>\<open>HybridRetriever._get_relevant_documents\<close>. The two backends are functions of
  the query (and of the number of candidates asked for); a backend call that raises
  ends the retrieval and is not part of the model.
\<close>

definition get_relevant_documents ::
  "real hybrid_retriever \<Rightarrow> (pystr \<Rightarrow> int) \<Rightarrow> (pystr \<Rightarrow> int \<Rightarrow> (document \<times> real) list)
     \<Rightarrow> (pystr \<Rightarrow> document list) \<Rightarrow> pystr \<Rightarrow> py_error + document list" where
  "get_relevant_documents self h vectorstore bm25_retriever query =
     (let vector_docs = vectorstore query (k self * 2);
          bm25_docs = bm25_retriever query
      in case combine_results self h vector_docs bm25_docs query of
           Inl e \<Rightarrow> Inl e
         | Inr combined_docs \<Rightarrow> Inr (slice_to combined_docs (k self)))"

text \<open>
  The distance and the rank a hit list holds for an identity. The loops overwrite, so
  when several hits share the identity the last one counts.
\<close>

fun vector_distance :: "(pystr \<Rightarrow> int) \<Rightarrow> (document \<times> real) list \<Rightarrow> int \<Rightarrow> real option" where
  "vector_distance h [] key = None"
| "vector_distance h ((d, score) # rest) key =
     (case vector_distance h rest key of
        Some s \<Rightarrow> Some s
      | None \<Rightarrow> if get_doc_id h d = key then Some score else None)"

fun keyword_rank :: "(pystr \<Rightarrow> int) \<Rightarrow> nat \<Rightarrow> document list \<Rightarrow> int \<Rightarrow> nat option" where
  "keyword_rank h i [] key = None"
| "keyword_rank h i (d # rest) key =
     (case keyword_rank h (i + 1) rest key of
        Some r \<Rightarrow> Some r
      | None \<Rightarrow> if get_doc_id h d = key then Some i else None)"

text \<open>A chunk with the given text and the metadata entry \<^verbatim>\<open>source\<close>.\<close>

definition mk_doc :: "pystr \<Rightarrow> pystr \<Rightarrow> document" where
  "mk_doc content source =
     \<lparr>page_content = content, metadata = [([115, 111, 117, 114, 99, 101], source)]\<rparr>"

text \<open>
  Four sample chunks with the texts \<^verbatim>\<open>"a"\<close>, \<^verbatim>\<open>"b"\<close> and \<^verbatim>\<open>"c"\<close>;
  \<open>doc_a2\<close> has the text of \<open>doc_a\<close> and other metadata.
\<close>

definition doc_a :: document where "doc_a = mk_doc [97] [49]"
definition doc_b :: document where "doc_b = mk_doc [98] [49]"
definition doc_c :: document where "doc_c = mk_doc [99] [50]"
definition doc_a2 :: document where "doc_a2 = mk_doc [97] [50]"

text \<open>Two backend stubs that return the same hits for every query.\<close>

definition sample_vectorstore :: "pystr \<Rightarrow> int \<Rightarrow> (document \<times> real) list" where
  "sample_vectorstore query n = [(doc_a, 1 / 10), (doc_b, 2 / 10)]"

definition sample_bm25 :: "pystr \<Rightarrow> document list" where
  "sample_bm25 query = [doc_c, doc_a2]"

definition sample_retriever :: "int \<Rightarrow> real hybrid_retriever" where
  "sample_retriever n = \<lparr>vector_weight = 7 / 10, bm25_weight = 3 / 10, k = n\<rparr>"




text \<open>
  Three chunks whose texts are longer than a hundred characters and agree on the first
  hundred: a hundred times \<^verbatim>\<open>x\<close>, then \<^verbatim>\<open>1\<close> or \<^verbatim>\<open>2\<close>. \<open>long1b\<close> has the
  text of \<open>long1\<close> and other metadata.
\<close>

definition long1 :: document where "long1 = mk_doc (replicate 100 120 @ [49]) [49]"
definition long2 :: document where "long2 = mk_doc (replicate 100 120 @ [50]) [49]"
definition long1b :: document where "long1b = mk_doc (replicate 100 120 @ [49]) [50]"

text \<open>A vector result with the first two of them, and backends that return one each.\<close>

definition prefix_vector_docs :: "(document \<times> real) list" where
  "prefix_vector_docs = [(long1, 1 / 10), (long2, 5 / 10)]"

definition prefix_vectorstore :: "pystr \<Rightarrow> int \<Rightarrow> (document \<times> real) list" where
  "prefix_vectorstore query n = [(long1, 1 / 10)]"

definition prefix_bm25 :: "pystr \<Rightarrow> document list" where
  "prefix_bm25 query = [long2]"

section \<open>String operations of the runtime\<close>

text \<open>\<^verbatim>\<open>s.startswith(p)\<close>.\<close>

fun startswith :: "'a list \<Rightarrow> 'a list \<Rightarrow> bool" where
  "startswith s [] = True"
| "startswith [] (p # ps) = False"
| "startswith (c # cs) (p # ps) = (c = p \<and> startswith cs ps)"

text \<open>\<^verbatim>\<open>sub in s\<close>: \<open>sub\<close> occurs in \<open>s\<close> as a contiguous block.\<close>

fun str_contains :: "'a list \<Rightarrow> 'a list \<Rightarrow> bool" where
  "str_contains [] sub = (sub = [])"
| "str_contains (c # cs) sub = (startswith (c # cs) sub \<or> str_contains cs sub)"

text \<open>
  \<^verbatim>\<open>s.replace(old, new)\<close>: every occurrence of \<open>old\<close>, found from the left and
  without overlaps, is replaced. An empty \<open>old\<close> matches before every character and
  at the end.
\<close>

function str_replace :: "'a list \<Rightarrow> 'a list \<Rightarrow> 'a list \<Rightarrow> 'a list" where
  "str_replace s [] new = new @ concat (map (\<lambda>c. c # new) s)"
| "str_replace [] (p # ps) new = []"
| "str_replace (c # cs) (p # ps) new =
     (if startswith (c # cs) (p # ps)
      then new @ str_replace (drop (length (p # ps)) (c # cs)) (p # ps) new
      else c # str_replace cs (p # ps) new)"
  by pat_completeness auto
termination
  by (relation "measure (\<lambda>(s, old, new). length s)") simp_all

text \<open>
  \<^verbatim>\<open>s.count(sub)\<close>: the number of occurrences of \<open>sub\<close>, found from the left and
  without overlaps; an empty \<open>sub\<close> is counted \<open>len(s) + 1\<close> times.
\<close>

function str_count :: "'a list \<Rightarrow> 'a list \<Rightarrow> nat" where
  "str_count s [] = length s + 1"
| "str_count [] (p # ps) = 0"
| "str_count (c # cs) (p # ps) =
     (if startswith (c # cs) (p # ps)
      then 1 + str_count (drop (length (p # ps)) (c # cs)) (p # ps)
      else str_count cs (p # ps))"
  by pat_completeness auto
termination
  by (relation "measure (\<lambda>(s, sub). length s)") simp_all

section \<open>Query expansion\<close>

text \<open>
  The synonym table of \<^verbatim>\<open>_expand_query\<close>, in the order the dictionary literal
  lists its entries, which is the order the loop visits them. The keys are the words
  for stock (U+80A1 U+7968), company (U+516C U+53F8) and performance (U+8868 U+73B0).
\<close>

definition synonyms :: "(pystr \<times> pystr list) list" where
  "synonyms =
     [([0x80A1, 0x7968], [[0x80A1, 0x4EF7], [0x80A1, 0x4EFD], [0x8BC1, 0x5238], [0x6295, 0x8D44]]),
      ([0x516C, 0x53F8], [[0x4F01, 0x4E1A], [0x673A, 0x6784], [0x7EC4, 0x7EC7]]),
      ([0x8868, 0x73B0], [[0x4E1A, 0x7EE9], [0x6210, 0x7EE9], [0x7ED3, 0x679C], [0x60C5, 0x51B5]])]"

text \<open>The inner loop over the synonyms of one matching key.\<close>

fun expand_syns :: "pystr \<Rightarrow> pystr \<Rightarrow> pystr list \<Rightarrow> pystr list \<Rightarrow> pystr list" where
  "expand_syns query original [] expansions = expansions"
| "expand_syns query original (syn # syns) expansions =
     (let expanded = str_replace query original syn in
      expand_syns query original syns
        (if expanded \<notin> set expansions then expansions @ [expanded] else expansions))"

text \<open>The outer loop over the entries of the table.\<close>

fun expand_entries :: "pystr \<Rightarrow> (pystr \<times> pystr list) list \<Rightarrow> pystr list \<Rightarrow> pystr list" where
  "expand_entries query [] expansions = expansions"
| "expand_entries query ((original, syns) # rest) expansions =
     expand_entries query rest
       (if str_contains query original then expand_syns query original syns expansions
        else expansions)"

definition expand_query :: "pystr \<Rightarrow> pystr list" where
  "expand_query query = expand_entries query synonyms [query]"

text \<open>The query of the scenario, as code points.\<close>

definition apple_query :: pystr where
  "apple_query = [0x82F9, 0x679C, 0x516C, 0x53F8, 0x80A1, 0x7968, 0x8868, 0x73B0]"

section \<open>Reranking\<close>

text \<open>
  The reranker lower-cases with \<^verbatim>\<open>str.lower\<close> and tokenises with
  \<^verbatim>\<open>re.findall(r'\w+', ...)\<close>. Both read the Unicode tables of the interpreter,
  which are parameters here: \<open>lc\<close> gives the lower-case form of a code point (one or
  more code points) and \<open>isw\<close> says whether a code point is a word character. The
  one rule of \<^verbatim>\<open>str.lower\<close> that looks at the neighbours of a character (the
  final sigma) is outside the model.
\<close>

definition str_lower :: "(nat \<Rightarrow> pystr) \<Rightarrow> pystr \<Rightarrow> pystr" where
  "str_lower lc s = concat (map lc s)"

text \<open>\<^verbatim>\<open>re.findall(r'\w+', s)\<close>: the maximal runs of word characters, from the left.\<close>

function findall_words :: "(nat \<Rightarrow> bool) \<Rightarrow> pystr \<Rightarrow> pystr list" where
  "findall_words isw [] = []"
| "findall_words isw (c # cs) =
     (if isw c then (c # takeWhile isw cs) # findall_words isw (dropWhile isw cs)
      else findall_words isw cs)"
  by pat_completeness auto
termination
  by (relation "measure (\<lambda>(isw, s). length s)")
     (simp_all add: length_dropWhile_le less_Suc_eq_le)

text \<open>\<^verbatim>\<open>set(re.findall(r'\w+', text.lower()))\<close>.\<close>

definition term_set :: "(nat \<Rightarrow> pystr) \<Rightarrow> (nat \<Rightarrow> bool) \<Rightarrow> pystr \<Rightarrow> pystr set" where
  "term_set lc isw text = set (findall_words isw (str_lower lc text))"

text \<open>
  \<^verbatim>\<open>calculate_relevance_score\<close>, the closure of \<^verbatim>\<open>_rerank_documents\<close> over
  \<^verbatim>\<open>query_terms\<close>. The quotient \<^verbatim>\<open>overlap / total_terms\<close> is guarded; the
  quotient by \<^verbatim>\<open>len(doc_text)\<close> is not and raises for an empty text.
\<close>

definition calculate_relevance_score ::
  "(nat \<Rightarrow> pystr) \<Rightarrow> (nat \<Rightarrow> bool) \<Rightarrow> pystr set \<Rightarrow> document \<Rightarrow> py_error + real" where
  "calculate_relevance_score lc isw query_terms d =
     (let doc_terms = term_set lc isw (page_content d);
          overlap = card (query_terms \<inter> doc_terms);
          total_terms = card (query_terms \<union> doc_terms)
      in if total_terms = 0 then Inr 0
         else
           let jaccard_sim = real overlap / real total_terms;
               doc_text = str_lower lc (page_content d)
           in if length doc_text = 0 then Inl ZeroDivisionError
              else
                let term_density =
                      real (\<Sum>term \<in> query_terms. str_count doc_text term) / real (length doc_text)
                in Inr (7 / 10 * jaccard_sim + 3 / 10 * term_density))"

text \<open>
  The list comprehension \<^verbatim>\<open>[(doc, calculate_relevance_score(doc)) for doc in docs]\<close>:
  the first score that raises ends it.
\<close>

fun score_docs :: "(document \<Rightarrow> py_error + real) \<Rightarrow> document list \<Rightarrow> py_error + (document \<times> real) list" where
  "score_docs f [] = Inr []"
| "score_docs f (d # docs) =
     (case f d of
        Inl e \<Rightarrow> Inl e
      | Inr score \<Rightarrow>
          (case score_docs f docs of
             Inl e \<Rightarrow> Inl e
           | Inr rest \<Rightarrow> Inr ((d, score) # rest)))"

text \<open>\<^verbatim>\<open>_rerank_documents\<close>: score, sort by descending score (stable), drop the scores.\<close>

definition rerank_documents ::
  "(nat \<Rightarrow> pystr) \<Rightarrow> (nat \<Rightarrow> bool) \<Rightarrow> document list \<Rightarrow> pystr \<Rightarrow> py_error + document list" where
  "rerank_documents lc isw docs query =
     (let query_terms = term_set lc isw query in
      case score_docs (calculate_relevance_score lc isw query_terms) docs of
        Inl e \<Rightarrow> Inl e
      | Inr scored_docs \<Rightarrow> Inr (map fst (sort_key (\<lambda>x. - snd x) scored_docs)))"

text \<open>
  \<^verbatim>\<open>_deduplicate_docs\<close>: the first document of every identity, in input order.
\<close>

fun dedup_loop :: "(pystr \<Rightarrow> int) \<Rightarrow> document list \<Rightarrow> int set \<Rightarrow> document list \<Rightarrow> document list" where
  "dedup_loop h [] seen unique_docs = unique_docs"
| "dedup_loop h (d # docs) seen unique_docs =
     (let doc_id = get_doc_id h d in
      if doc_id \<notin> seen then dedup_loop h docs (insert doc_id seen) (unique_docs @ [d])
      else dedup_loop h docs seen unique_docs)"

definition deduplicate_docs :: "(pystr \<Rightarrow> int) \<Rightarrow> document list \<Rightarrow> document list" where
  "deduplicate_docs h docs = dedup_loop h docs {} []"

text \<open>
  The two tables restricted to ASCII, to run the reranker on ASCII text: upper-case
  letters map to lower-case ones, and the word characters are the digits, the letters
  and the underscore.
\<close>

definition ascii_lc :: "nat \<Rightarrow> pystr" where
  "ascii_lc c = (if 65 \<le> c \<and> c \<le> 90 then [c + 32] else [c])"

definition ascii_isw :: "nat \<Rightarrow> bool" where
  "ascii_isw c = ((48 \<le> c \<and> c \<le> 57) \<or> (65 \<le> c \<and> c \<le> 90) \<or> c = 95 \<or> (97 \<le> c \<and> c \<le> 122))"

text \<open>A chunk with no text, and the one-term query \<^verbatim>\<open>"a"\<close>.\<close>

definition empty_doc :: document where
  "empty_doc = mk_doc [] [49]"

definition query_a :: pystr where
  "query_a = [97]"

section \<open>The string hash of the interpreter\<close>

text \<open>
  What \<^verbatim>\<open>hash\<close> computes for a \<^verbatim>\<open>str\<close> in CPython (\<^verbatim>\<open>Python/pyhash.c\<close>, the
  default build since version 3.11; earlier versions differ in the number of rounds):
  SipHash-1-3 over the character buffer of the string, keyed by the two 64-bit words of
  the hash secret of the process. The interpreter fills the secret when it starts: from
  the random source of the operating system, or from \<^verbatim>\<open>PYTHONHASHSEED\<close> when that
  variable is set (all zero for the value \<open>0\<close>). The arithmetic is that of
  \<^verbatim>\<open>uint64_t\<close>.
\<close>

unbundle bit_operations_syntax

type_synonym u64 = "64 word"

definition ROTATE :: "u64 \<Rightarrow> nat \<Rightarrow> u64" where
  "ROTATE x b = (push_bit b x) OR (drop_bit (64 - b) x)"

definition HALF_ROUND ::
  "u64 \<times> u64 \<times> u64 \<times> u64 \<Rightarrow> nat \<Rightarrow> nat \<Rightarrow> u64 \<times> u64 \<times> u64 \<times> u64" where
  "HALF_ROUND v s t =
     (case v of (a, b, c, d) \<Rightarrow>
        let a = a + b; c = c + d;
            b = ROTATE b s XOR a;
            d = ROTATE d t XOR c;
            a = ROTATE a 32
        in (a, b, c, d))"

definition SINGLE_ROUND :: "u64 \<times> u64 \<times> u64 \<times> u64 \<Rightarrow> u64 \<times> u64 \<times> u64 \<times> u64" where
  "SINGLE_ROUND v =
     (case v of (v0, v1, v2, v3) \<Rightarrow>
        case HALF_ROUND (v0, v1, v2, v3) 13 16 of (v0, v1, v2, v3) \<Rightarrow>
        case HALF_ROUND (v2, v1, v0, v3) 17 21 of (v2, v1, v0, v3) \<Rightarrow>
          (v0, v1, v2, v3))"

text \<open>The little-endian value of up to eight bytes.\<close>

fun le64 :: "nat list \<Rightarrow> u64" where
  "le64 [] = 0"
| "le64 (b # bs) = of_nat b OR push_bit 8 (le64 bs)"

text \<open>The loop over the full blocks of eight bytes; it returns the bytes left over.\<close>

fun sip_blocks ::
  "u64 \<times> u64 \<times> u64 \<times> u64 \<Rightarrow> nat list \<Rightarrow> (u64 \<times> u64 \<times> u64 \<times> u64) \<times> nat list" where
  "sip_blocks v (b0 # b1 # b2 # b3 # b4 # b5 # b6 # b7 # rest) =
     (case v of (v0, v1, v2, v3) \<Rightarrow>
        let mi = le64 [b0, b1, b2, b3, b4, b5, b6, b7];
            v3 = v3 XOR mi in
        case SINGLE_ROUND (v0, v1, v2, v3) of (v0, v1, v2, v3) \<Rightarrow>
          sip_blocks (v0 XOR mi, v1, v2, v3) rest)"
| "sip_blocks v src = (v, src)"

definition siphash13 :: "u64 \<Rightarrow> u64 \<Rightarrow> nat list \<Rightarrow> u64" where
  "siphash13 k0 k1 src =
     (let b = push_bit 56 (of_nat (length src));
          v0 = k0 XOR 0x736f6d6570736575;
          v1 = k1 XOR 0x646f72616e646f6d;
          v2 = k0 XOR 0x6c7967656e657261;
          v3 = k1 XOR 0x7465646279746573 in
      case sip_blocks (v0, v1, v2, v3) src of ((v0, v1, v2, v3), tail) \<Rightarrow>
        let b = b OR le64 tail;
            v3 = v3 XOR b in
        case SINGLE_ROUND (v0, v1, v2, v3) of (v0, v1, v2, v3) \<Rightarrow>
        let v0 = v0 XOR b;
            v2 = v2 XOR 0xff in
        case SINGLE_ROUND (SINGLE_ROUND (SINGLE_ROUND (v0, v1, v2, v3))) of (v0, v1, v2, v3) \<Rightarrow>
          (v0 XOR v1) XOR (v2 XOR v3))"

text \<open>
  The character buffer: one, two or four bytes per character, the narrowest width
  that holds every character of the string, each character in little-endian order.
\<close>

definition unicode_kind :: "pystr \<Rightarrow> nat" where
  "unicode_kind s =
     (if list_all (\<lambda>c. c < 256) s then 1 else if list_all (\<lambda>c. c < 65536) s then 2 else 4)"

definition le_bytes :: "nat \<Rightarrow> nat \<Rightarrow> nat list" where
  "le_bytes w c =
     (if w = 1 then [c mod 256]
      else if w = 2 then [c mod 256, c div 256 mod 256]
      else [c mod 256, c div 256 mod 256, c div 65536 mod 256, c div 16777216 mod 256])"

definition unicode_data :: "pystr \<Rightarrow> nat list" where
  "unicode_data s = concat (map (le_bytes (unicode_kind s)) s)"

text \<open>
  The hash of a string under a secret: zero for the empty string, else the SipHash
  value read as a signed 64-bit number, with \<open>-1\<close> replaced by \<open>-2\<close>.
\<close>

definition unicode_hash :: "u64 \<times> u64 \<Rightarrow> pystr \<Rightarrow> int" where
  "unicode_hash secret s =
     (let src = unicode_data s in
      if length src = 0 then 0
      else
        let x = sint (siphash13 (fst secret) (snd secret) src) in
        if x = - 1 then - 2 else x)"

text \<open>
  The secrets of two runs: with \<^verbatim>\<open>PYTHONHASHSEED=0\<close>, and with
  \<^verbatim>\<open>PYTHONHASHSEED=1\<close>.
\<close>

definition secret_seed0 :: "u64 \<times> u64" where
  "secret_seed0 = (0, 0)"

definition secret_seed1 :: "u64 \<times> u64" where
  "secret_seed1 = (0xaed66ce184be2329, 0xebe9bbf1f1499052)"

text \<open>
  The hash functions of these two runs. The closed examples below are computed in the
  first; the results that hold in every run are stated for an arbitrary \<open>h\<close>.
\<close>

definition hash_seed0 :: "pystr \<Rightarrow> int" where
  "hash_seed0 = unicode_hash secret_seed0"

definition hash_seed1 :: "pystr \<Rightarrow> int" where
  "hash_seed1 = unicode_hash secret_seed1"

section \<open>Properties of construction\<close>

text \<open>
  None of the attributes the constructor assigns is a field of the model, so its first
  assignment, \<^verbatim>\<open>self.vectorstore = vectorstore\<close>, raises, whatever the arguments are.
\<close>

lemma vectorstore_not_a_field: "''vectorstore'' \<notin> set HybridRetriever_fields"
  by (simp add: HybridRetriever_fields_def BaseRetriever_fields_def)

lemma HybridRetriever_init_raises: "HybridRetriever_init ops vw bw n = Inl ValueError"
  by (simp add: HybridRetriever_init_def setattr_def vectorstore_not_a_field)

text \<open>
  C2 asks for stored weights that sum to one after construction, and the comment above
  the rescaling says the same. For no pair of weights does construction come to store
  anything: it ends in the \<^verbatim>\<open>ValueError\<close> of the first assignment, before the
  rescaling is reached.
\<close>

theorem init_stores_no_weights:
  "HybridRetriever_init ops vw bw n = Inl ValueError
   \<and> (\<nexists>r. HybridRetriever_init ops vw bw n = Inr r)"
  by (simp add: HybridRetriever_init_raises)

text \<open>
  C5 asks construction to succeed for every well-formed configuration and to fail with
  a configuration error otherwise. It fails for every configuration, and with the
  same \<^verbatim>\<open>ValueError\<close>: neither the weights nor \<open>k\<close> have any part in it.
\<close>

theorem init_fails_for_every_configuration:
  "HybridRetriever_init ops vw bw n = Inl ValueError
   \<and> HybridRetriever_init ops vw bw n = HybridRetriever_init ops' vw' bw' n'"
  by (simp add: HybridRetriever_init_raises)

section \<open>Properties of query expansion\<close>

text \<open>
  C4, as stated, expects exactly five variants for the query of the scenario. That
  query contains all three keys of the table, so the loop also substitutes the words
  for company and for performance: twelve variants come back.
\<close>

theorem expand_query_apple_counterexample:
  "length (expand_query apple_query) = 12 \<and> length (expand_query apple_query) \<noteq> 5"
  by (simp add: expand_query_def apple_query_def synonyms_def)

text \<open>
  C4, amended: the expansion of the query of the scenario is the original query
  followed by the four substitutions for stock, the three for company and the four for
  performance, each made in the original query, in table order and without duplicates.
\<close>

theorem expand_query_apple:
  "expand_query apple_query =
     [[0x82F9, 0x679C, 0x516C, 0x53F8, 0x80A1, 0x7968, 0x8868, 0x73B0],
      [0x82F9, 0x679C, 0x516C, 0x53F8, 0x80A1, 0x4EF7, 0x8868, 0x73B0],
      [0x82F9, 0x679C, 0x516C, 0x53F8, 0x80A1, 0x4EFD, 0x8868, 0x73B0],
      [0x82F9, 0x679C, 0x516C, 0x53F8, 0x8BC1, 0x5238, 0x8868, 0x73B0],
      [0x82F9, 0x679C, 0x516C, 0x53F8, 0x6295, 0x8D44, 0x8868, 0x73B0],
      [0x82F9, 0x679C, 0x4F01, 0x4E1A, 0x80A1, 0x7968, 0x8868, 0x73B0],
      [0x82F9, 0x679C, 0x673A, 0x6784, 0x80A1, 0x7968, 0x8868, 0x73B0],
      [0x82F9, 0x679C, 0x7EC4, 0x7EC7, 0x80A1, 0x7968, 0x8868, 0x73B0],
      [0x82F9, 0x679C, 0x516C, 0x53F8, 0x80A1, 0x7968, 0x4E1A, 0x7EE9],
      [0x82F9, 0x679C, 0x516C, 0x53F8, 0x80A1, 0x7968, 0x6210, 0x7EE9],
      [0x82F9, 0x679C, 0x516C, 0x53F8, 0x80A1, 0x7968, 0x7ED3, 0x679C],
      [0x82F9, 0x679C, 0x516C, 0x53F8, 0x80A1, 0x7968, 0x60C5, 0x51B5]]
   \<and> hd (expand_query apple_query) = apple_query
   \<and> distinct (expand_query apple_query)"
  by (simp add: expand_query_def apple_query_def synonyms_def)

theorem expand_query_apple_witness:
  "take 2 (expand_query apple_query) =
     [[0x82F9, 0x679C, 0x516C, 0x53F8, 0x80A1, 0x7968, 0x8868, 0x73B0],
      [0x82F9, 0x679C, 0x516C, 0x53F8, 0x80A1, 0x4EF7, 0x8868, 0x73B0]]"
  using expand_query_apple by simp

section \<open>Values of the string hash\<close>

text \<open>The hashes of \<^verbatim>\<open>"a"\<close>, \<^verbatim>\<open>"b"\<close> and \<^verbatim>\<open>"c"\<close> in the two runs.\<close>

lemma hash_seed0_a: "hash_seed0 [97] = 4644417185603328019"
  by (simp add: hash_seed0_def secret_seed0_def unicode_hash_def unicode_data_def
      unicode_kind_def le_bytes_def siphash13_def SINGLE_ROUND_def HALF_ROUND_def ROTATE_def)

lemma hash_seed0_b: "hash_seed0 [98] = - 8420940591063670578"
  by (simp add: hash_seed0_def secret_seed0_def unicode_hash_def unicode_data_def
      unicode_kind_def le_bytes_def siphash13_def SINGLE_ROUND_def HALF_ROUND_def ROTATE_def)

lemma hash_seed0_c: "hash_seed0 [99] = - 2649405227494141838"
  by (simp add: hash_seed0_def secret_seed0_def unicode_hash_def unicode_data_def
      unicode_kind_def le_bytes_def siphash13_def SINGLE_ROUND_def HALF_ROUND_def ROTATE_def)

lemma hash_seed1_a: "hash_seed1 [97] = - 3012895188637184397"
  by (simp add: hash_seed1_def secret_seed1_def unicode_hash_def unicode_data_def
      unicode_kind_def le_bytes_def siphash13_def SINGLE_ROUND_def HALF_ROUND_def ROTATE_def)

section \<open>Association lists as dictionaries\<close>

lemma set_update_subset: "set (AList.update key v al) \<subseteq> insert (key, v) (set al)"
  by (induct al) auto


lemma map_of_filter_key:
  "distinct (map fst al) \<Longrightarrow> map_of al key = Some v \<Longrightarrow> filter (\<lambda>p. fst p = key) al = [(key, v)]"
proof (induct al)
  case Nil
  then show ?case by simp
next
  case (Cons p al)
  show ?case
  proof (cases "fst p = key")
    case True
    with Cons.prems have "p = (key, v)" by (cases p) simp
    moreover from Cons.prems True have "filter (\<lambda>p. fst p = key) al = []"
      by (force simp: filter_empty_conv image_iff)
    ultimately show ?thesis by simp
  next
    case False
    with Cons show ?thesis by simp
  qed
qed

section \<open>The two fusion loops\<close>

text \<open>
  The vector loop returns unless a distance is \<open>-1\<close>; the dictionary it returns has
  the identities of the hits as keys, each entry keeps a document of its own identity,
  and the scores are those of the last hit of each identity.
\<close>

lemma vector_loop_total:
  "\<forall>(d, s) \<in> set vds. 1 + s \<noteq> 0 \<Longrightarrow> \<exists>ds. vector_loop h vds acc = Inr ds"
  by (induction vds arbitrary: acc) (auto simp: Let_def)

lemma vector_loop_Cons:
  "vector_loop h ((d, s) # vds) acc = Inr ds \<Longrightarrow>
     1 + s \<noteq> 0 \<and>
     vector_loop h vds (AList.update (get_doc_id h d)
        \<lparr>doc = d, vector_score = 1 / (1 + s), bm25_score = 0\<rparr> acc) = Inr ds"
  by (auto simp: Let_def split: if_splits)

lemma vector_loop_keys:
  "vector_loop h vds acc = Inr ds \<Longrightarrow>
     fst ` set ds = fst ` set acc \<union> get_doc_id h ` fst ` set vds"
proof (induction vds arbitrary: acc)
  case Nil
  then show ?case by simp
next
  case (Cons p vds)
  obtain d s where p: "p = (d, s)" by (cases p)
  from Cons.prems have run: "vector_loop h vds (AList.update (get_doc_id h d)
          \<lparr>doc = d, vector_score = 1 / (1 + s), bm25_score = 0\<rparr> acc) = Inr ds"
    unfolding p by (rule vector_loop_Cons [THEN conjunct2])
  from Cons.IH [OF run] show ?case
    by (auto simp: p dom_update)
qed

lemma vector_loop_distinct:
  "vector_loop h vds acc = Inr ds \<Longrightarrow> distinct (map fst acc) \<Longrightarrow> distinct (map fst ds)"
proof (induction vds arbitrary: acc)
  case Nil
  then show ?case by simp
next
  case (Cons p vds)
  obtain d s where p: "p = (d, s)" by (cases p)
  from Cons.prems(1) have run: "vector_loop h vds (AList.update (get_doc_id h d)
          \<lparr>doc = d, vector_score = 1 / (1 + s), bm25_score = 0\<rparr> acc) = Inr ds"
    unfolding p by (rule vector_loop_Cons [THEN conjunct2])
  from Cons.IH [OF run] Cons.prems(2) show ?case
    by (simp add: distinct_update)
qed

lemma vector_loop_doc_id:
  "vector_loop h vds acc = Inr ds \<Longrightarrow> \<forall>(key, e) \<in> set acc. get_doc_id h (doc e) = key
     \<Longrightarrow> \<forall>(key, e) \<in> set ds. get_doc_id h (doc e) = key"
proof (induction vds arbitrary: acc)
  case Nil
  then show ?case by simp
next
  case (Cons p vds)
  obtain d s where p: "p = (d, s)" by (cases p)
  let ?e = "\<lparr>doc = d, vector_score = 1 / (1 + s), bm25_score = 0\<rparr>"
  from Cons.prems(1) have run: "vector_loop h vds (AList.update (get_doc_id h d) ?e acc) = Inr ds"
    unfolding p by (rule vector_loop_Cons [THEN conjunct2])
  have "\<forall>(key, e) \<in> set (AList.update (get_doc_id h d) ?e acc). get_doc_id h (doc e) = key"
    using Cons.prems(2) set_update_subset [of "get_doc_id h d" ?e acc] by auto
  from Cons.IH [OF run this] show ?case .
qed

lemma vector_loop_scores:
  "vector_loop h vds acc = Inr ds \<Longrightarrow>
     map_option (\<lambda>e. (vector_score e, bm25_score e)) (map_of ds key) =
       (case vector_distance h vds key of
          Some s \<Rightarrow> Some (1 / (1 + s), 0)
        | None \<Rightarrow> map_option (\<lambda>e. (vector_score e, bm25_score e)) (map_of acc key))"
proof (induction vds arbitrary: acc)
  case Nil
  then show ?case by simp
next
  case (Cons p vds)
  obtain d s where p: "p = (d, s)" by (cases p)
  let ?e = "\<lparr>doc = d, vector_score = 1 / (1 + s), bm25_score = 0\<rparr>"
  from Cons.prems(1) have run: "vector_loop h vds (AList.update (get_doc_id h d) ?e acc) = Inr ds"
    unfolding p by (rule vector_loop_Cons [THEN conjunct2])
  from Cons.IH [OF run] show ?case
    by (auto simp: p update_conv' split: option.splits)
qed

lemma vector_distance_Some:
  "vector_distance h vds key = Some s \<Longrightarrow> \<exists>d. (d, s) \<in> set vds \<and> get_doc_id h d = key"
  by (induction vds) (auto split: option.splits if_splits)

lemma vector_distance_None:
  "vector_distance h vds key = None \<longleftrightarrow> key \<notin> get_doc_id h ` fst ` set vds"
  by (induction vds) (auto split: option.splits if_splits)


text \<open>
  The keyword loop adds the identities it has not seen, leaves the vector score of an
  entry alone and writes the rank score of the last hit of each identity.
\<close>

lemma bm25_loop_keys:
  "fst ` set (bm25_loop h i bds acc) = fst ` set acc \<union> get_doc_id h ` set bds"
  by (induction bds arbitrary: i acc) (auto simp: Let_def dom_update split: option.splits)

lemma bm25_loop_distinct:
  "distinct (map fst acc) \<Longrightarrow> distinct (map fst (bm25_loop h i bds acc))"
  by (induction bds arbitrary: i acc) (auto simp: Let_def distinct_update split: option.splits)

lemma bm25_loop_doc_id:
  "\<forall>(key, e) \<in> set acc. get_doc_id h (doc e) = key
     \<Longrightarrow> \<forall>(key, e) \<in> set (bm25_loop h i bds acc). get_doc_id h (doc e) = key"
proof (induction bds arbitrary: i acc)
  case Nil
  then show ?case by simp
next
  case (Cons d bds)
  let ?key = "get_doc_id h d"
  let ?r = "1 / (real i + 1)"
  let ?acc = "case map_of acc ?key of
                Some scores \<Rightarrow> AList.update ?key (scores\<lparr>bm25_score := ?r\<rparr>) acc
              | None \<Rightarrow> AList.update ?key \<lparr>doc = d, vector_score = 0, bm25_score = ?r\<rparr> acc"
  have "\<forall>(key, e) \<in> set ?acc. get_doc_id h (doc e) = key"
  proof (cases "map_of acc ?key")
    case None
    then show ?thesis
      using Cons.prems
        set_update_subset [of ?key "\<lparr>doc = d, vector_score = 0, bm25_score = ?r\<rparr>" acc]
      by auto
  next
    case (Some scores)
    then have "(?key, scores) \<in> set acc" by (rule map_of_SomeD)
    with Cons.prems have "get_doc_id h (doc scores) = ?key" by auto
    then show ?thesis
      using Some Cons.prems set_update_subset [of ?key "scores\<lparr>bm25_score := ?r\<rparr>" acc]
      by auto
  qed
  from Cons.IH [OF this, of "i + 1"] show ?case
    by (simp add: Let_def)
qed

lemma bm25_loop_vector_score:
  "map_option vector_score (map_of (bm25_loop h i bds acc) key) =
     (case map_of acc key of
        Some e \<Rightarrow> Some (vector_score e)
      | None \<Rightarrow> if key \<in> get_doc_id h ` set bds then Some 0 else None)"
  by (induction bds arbitrary: i acc)
     (auto simp: Let_def update_conv' split: option.splits)

lemma bm25_loop_bm25_score:
  "map_option bm25_score (map_of (bm25_loop h i bds acc) key) =
     (case keyword_rank h i bds key of
        Some r \<Rightarrow> Some (1 / (real r + 1))
      | None \<Rightarrow> map_option bm25_score (map_of acc key))"
  by (induction bds arbitrary: i acc)
     (auto simp: Let_def update_conv' split: option.splits)

lemma keyword_rank_None:
  "keyword_rank h i bds key = None \<longleftrightarrow> key \<notin> get_doc_id h ` set bds"
proof (induction bds arbitrary: i)
  case Nil
  then show ?case by simp
next
  case (Cons d bds)
  from Cons.IH [of "i + 1"] show ?case
    by (cases "keyword_rank h (i + 1) bds key") auto
qed

lemma keyword_rank_Some:
  "keyword_rank h i bds key = Some r \<Longrightarrow>
     i \<le> r \<and> r < i + length bds \<and> get_doc_id h (bds ! (r - i)) = key"
proof (induction bds arbitrary: i)
  case Nil
  then show ?case by simp
next
  case (Cons d bds)
  show ?case
  proof (cases "keyword_rank h (i + 1) bds key")
    case None
    with Cons.prems show ?thesis by (auto split: if_splits)
  next
    case (Some r')
    with Cons.prems have r: "r' = r" by simp
    from Some r have "keyword_rank h (i + 1) bds key = Some r" by simp
    from Cons.IH [OF this]
    have "i + 1 \<le> r" "r < i + 1 + length bds" "get_doc_id h (bds ! (r - (i + 1))) = key"
      by auto
    moreover from \<open>i + 1 \<le> r\<close> have "r - i = Suc (r - (i + 1))" by simp
    ultimately show ?thesis by simp
  qed
qed


text \<open>The dictionary after both loops.\<close>

lemma build_doc_scores_props:
  assumes ok: "\<forall>(d, s) \<in> set vds. s \<noteq> - 1"
  obtains ds where
    "build_doc_scores h vds bds = Inr ds"
    "distinct (map fst ds)"
    "fst ` set ds = get_doc_id h ` (fst ` set vds \<union> set bds)"
    "\<forall>(key, e) \<in> set ds. get_doc_id h (doc e) = key"
    "\<forall>(key, e) \<in> set ds.
        vector_score e = (case vector_distance h vds key of Some s \<Rightarrow> 1 / (1 + s) | None \<Rightarrow> 0)
      \<and> bm25_score e = (case keyword_rank h 0 bds key of Some r \<Rightarrow> 1 / (real r + 1) | None \<Rightarrow> 0)"
proof -
  from ok have "\<forall>(d, s) \<in> set vds. 1 + s \<noteq> 0" by auto
  then obtain ds0 where ds0: "vector_loop h vds [] = Inr ds0"
    using vector_loop_total by blast
  let ?ds = "bm25_loop h 0 bds ds0"
  have build: "build_doc_scores h vds bds = Inr ?ds"
    by (simp add: build_doc_scores_def ds0)
  have dist0: "distinct (map fst ds0)"
    using vector_loop_distinct [OF ds0] by simp
  have dist: "distinct (map fst ?ds)"
    using dist0 by (rule bm25_loop_distinct)
  have keys: "fst ` set ?ds = get_doc_id h ` (fst ` set vds \<union> set bds)"
    using vector_loop_keys [OF ds0] by (simp add: bm25_loop_keys image_Un)
  have ids0: "\<forall>(key, e) \<in> set ds0. get_doc_id h (doc e) = key"
    using vector_loop_doc_id [OF ds0] by simp
  have ids: "\<forall>(key, e) \<in> set ?ds. get_doc_id h (doc e) = key"
    using ids0 by (rule bm25_loop_doc_id)
  have scores: "\<forall>(key, e) \<in> set ?ds.
        vector_score e = (case vector_distance h vds key of Some s \<Rightarrow> 1 / (1 + s) | None \<Rightarrow> 0)
      \<and> bm25_score e = (case keyword_rank h 0 bds key of Some r \<Rightarrow> 1 / (real r + 1) | None \<Rightarrow> 0)"
  proof (clarify)
    fix key e
    assume mem: "(key, e) \<in> set ?ds"
    with dist have look: "map_of ?ds key = Some e" by simp
    have v0: "map_option (\<lambda>e. (vector_score e, bm25_score e)) (map_of ds0 key) =
                (case vector_distance h vds key of Some s \<Rightarrow> Some (1 / (1 + s), 0) | None \<Rightarrow> None)"
      using vector_loop_scores [OF ds0, of key] by (simp split: option.splits)
    have v: "Some (vector_score e) =
               (case map_of ds0 key of Some e0 \<Rightarrow> Some (vector_score e0)
                | None \<Rightarrow> if key \<in> get_doc_id h ` set bds then Some 0 else None)"
      using bm25_loop_vector_score [of h 0 bds ds0 key] look by simp
    have b: "Some (bm25_score e) =
               (case keyword_rank h 0 bds key of Some r \<Rightarrow> Some (1 / (real r + 1))
                | None \<Rightarrow> map_option bm25_score (map_of ds0 key))"
      using bm25_loop_bm25_score [of h 0 bds ds0 key] look by simp
    have "vector_score e = (case vector_distance h vds key of Some s \<Rightarrow> 1 / (1 + s) | None \<Rightarrow> 0)"
      using v v0 by (auto split: option.splits if_splits)
    moreover
    have "bm25_score e = (case keyword_rank h 0 bds key of Some r \<Rightarrow> 1 / (real r + 1) | None \<Rightarrow> 0)"
    proof (cases "keyword_rank h 0 bds key")
      case (Some r)
      with b show ?thesis by simp
    next
      case None
      then have "key \<notin> get_doc_id h ` set bds" by (simp add: keyword_rank_None)
      with v obtain e0 where e0: "map_of ds0 key = Some e0"
        by (cases "map_of ds0 key") auto
      with v0 have "bm25_score e0 = 0" by (auto split: option.splits)
      with b None e0 show ?thesis by simp
    qed
    ultimately show "vector_score e = (case vector_distance h vds key of Some s \<Rightarrow> 1 / (1 + s) | None \<Rightarrow> 0)
      \<and> bm25_score e = (case keyword_rank h 0 bds key of Some r \<Rightarrow> 1 / (real r + 1) | None \<Rightarrow> 0)"
      by simp
  qed
  from build dist keys ids scores show thesis by (rule that)
qed

text \<open>
  When the hits of a backend have pairwise different identities, the distance and the
  rank the dictionary keeps for a hit are that hit's own.
\<close>

lemma vector_distance_unique:
  "distinct (map (\<lambda>p. get_doc_id h (fst p)) vds) \<Longrightarrow> (d, s) \<in> set vds
     \<Longrightarrow> vector_distance h vds (get_doc_id h d) = Some s"
proof (induction vds)
  case Nil
  then show ?case by simp
next
  case (Cons p vds)
  obtain d' s' where p: "p = (d', s')" by (cases p)
  show ?case
  proof (cases "(d, s) \<in> set vds")
    case True
    with Cons show ?thesis by (simp add: p)
  next
    case False
    with Cons.prems p have eq: "d' = d" "s' = s" by auto
    from Cons.prems p eq have "get_doc_id h d \<notin> get_doc_id h ` fst ` set vds"
      by (auto simp: image_iff)
    then have "vector_distance h vds (get_doc_id h d) = None"
      by (simp add: vector_distance_None)
    then show ?thesis by (simp add: p eq)
  qed
qed


text \<open>The ranking: the sorted list of documents with their combined scores.\<close>

lemma ranked_docs_props:
  assumes build: "build_doc_scores h vds bds = Inr ds"
  shows "\<exists>ranked. ranked_docs self h vds bds = Inr ranked
           \<and> combine_results self h vds bds query = Inr (map fst ranked)
           \<and> length ranked = length ds
           \<and> sorted_wrt (\<ge>) (map snd ranked)
           \<and> mset ranked = mset (map (\<lambda>(doc_id, scores). (doc scores, combined_score self scores)) ds)"
proof -
  let ?xs = "map (\<lambda>(doc_id, scores). (doc scores, combined_score self scores)) ds"
  let ?ranked = "sort_key (\<lambda>x. - snd x) ?xs"
  have r: "ranked_docs self h vds bds = Inr ?ranked"
    by (simp add: ranked_docs_def build)
  have c: "combine_results self h vds bds query = Inr (map fst ?ranked)"
    by (simp add: combine_results_def r)
  have "sorted (map (\<lambda>x. - snd x) ?ranked)"
    by (rule sorted_sort_key)
  then have s: "sorted_wrt (\<ge>) (map snd ?ranked)"
    by (simp add: sorted_wrt_map)
  have l: "length ?ranked = length ds" by simp
  have m: "mset ?ranked = mset ?xs" by simp
  from r c l s m show ?thesis by blast
qed

section \<open>The pure-vector configuration\<close>








section \<open>Hits with pairwise different identities\<close>


lemma vector_loop_docs:
  "vector_loop h vds acc = Inr ds \<Longrightarrow> \<forall>(key, e) \<in> set acc. doc e \<in> D \<Longrightarrow> fst ` set vds \<subseteq> D
     \<Longrightarrow> \<forall>(key, e) \<in> set ds. doc e \<in> D"
proof (induction vds arbitrary: acc)
  case Nil
  then show ?case by simp
next
  case (Cons p vds)
  obtain d s where p: "p = (d, s)" by (cases p)
  let ?e = "\<lparr>doc = d, vector_score = 1 / (1 + s), bm25_score = 0\<rparr>"
  from Cons.prems(1) have run: "vector_loop h vds (AList.update (get_doc_id h d) ?e acc) = Inr ds"
    unfolding p by (rule vector_loop_Cons [THEN conjunct2])
  have a: "\<forall>(key, e) \<in> set (AList.update (get_doc_id h d) ?e acc). doc e \<in> D"
    using Cons.prems(2,3) set_update_subset [of "get_doc_id h d" ?e acc] by (auto simp: p)
  have b: "fst ` set vds \<subseteq> D" using Cons.prems(3) by auto
  from Cons.IH [OF run a b] show ?case .
qed

lemma bm25_loop_docs:
  "\<forall>(key, e) \<in> set acc. doc e \<in> D \<Longrightarrow> set bds \<subseteq> D
     \<Longrightarrow> \<forall>(key, e) \<in> set (bm25_loop h i bds acc). doc e \<in> D"
proof (induction bds arbitrary: i acc)
  case Nil
  then show ?case by simp
next
  case (Cons d bds)
  let ?key = "get_doc_id h d"
  let ?r = "1 / (real i + 1)"
  let ?acc = "case map_of acc ?key of
                Some scores \<Rightarrow> AList.update ?key (scores\<lparr>bm25_score := ?r\<rparr>) acc
              | None \<Rightarrow> AList.update ?key \<lparr>doc = d, vector_score = 0, bm25_score = ?r\<rparr> acc"
  have a: "\<forall>(key, e) \<in> set ?acc. doc e \<in> D"
  proof (cases "map_of acc ?key")
    case None
    then show ?thesis
      using Cons.prems
        set_update_subset [of ?key "\<lparr>doc = d, vector_score = 0, bm25_score = ?r\<rparr>" acc]
      by auto
  next
    case (Some scores)
    then have "(?key, scores) \<in> set acc" by (rule map_of_SomeD)
    with Cons.prems(1) have "doc scores \<in> D" by auto
    then show ?thesis
      using Some Cons.prems(1) set_update_subset [of ?key "scores\<lparr>bm25_score := ?r\<rparr>" acc]
      by auto
  qed
  have b: "set bds \<subseteq> D" using Cons.prems(2) by simp
  from Cons.IH [OF a b, of "i + 1"] show ?case
    by (simp add: Let_def)
qed





section \<open>Properties of fusion\<close>




section \<open>Properties of deduplication\<close>

lemma build_doc_scores_docs:
  assumes "build_doc_scores h vds bds = Inr ds"
  shows "\<forall>(key, e) \<in> set ds. doc e \<in> fst ` set vds \<union> set bds"
proof -
  from assms obtain ds0 where
    v: "vector_loop h vds [] = Inr ds0" and ds: "ds = bm25_loop h 0 bds ds0"
    by (auto simp: build_doc_scores_def split: sum.splits)
  have "\<forall>(key, e) \<in> set ds0. doc e \<in> fst ` set vds \<union> set bds"
    using v by (rule vector_loop_docs) auto
  then show ?thesis
    unfolding ds by (rule bm25_loop_docs) auto
qed

lemma get_doc_id_content:
  "page_content d = page_content d' \<Longrightarrow> get_doc_id h d = get_doc_id h d'"
  by (simp add: get_doc_id_def)

text \<open>
  C7, as stated, promises one entry for the document whenever a vector hit and a
  keyword hit have the same content. In \<open>prefix_vector_docs\<close> the hit \<open>long1\<close> is
  followed by \<open>long2\<close>, of another text and the same identity; the keyword result is
  \<open>long1b\<close>, which has the text of \<open>long1\<close>. The fused output is \<open>long2\<close> alone:
  it has no document with the text of \<open>long1\<close>.
\<close>

theorem dedup_same_content_counterexample:
  "combine_results (sample_retriever 5) hash_seed0 prefix_vector_docs [long1b] [] = Inr [long2]
   \<and> prefix_vector_docs = [(long1, 1 / 10), (long2, 5 / 10)]
   \<and> page_content long1b = page_content long1
   \<and> page_content long2 \<noteq> page_content long1"
  by (simp add: combine_results_def ranked_docs_def build_doc_scores_def get_doc_id_def
      combined_score_def sample_retriever_def prefix_vector_docs_def long1_def long2_def
      long1b_def mk_doc_def Let_def)

text \<open>
  C7, amended: when no two hits of different content share an identity, a vector hit
  and a keyword hit of the same content, also as two different chunk values, are fused
  into exactly one entry: the dictionary has exactly one entry whose document has that
  content, its vector score is \<open>1 / (1 + s)\<close> for the distance of a vector hit of
  that content and its keyword score \<open>1 / (r + 1)\<close> for the rank of a keyword hit of
  that content, both are non-zero, and the ranking and the returned list have exactly
  one document of that content. The distances are not \<open>-1\<close>.
\<close>

theorem dedup_same_content:
  assumes v: "(dv, s) \<in> set vector_docs"
    and b: "dk \<in> set bm25_docs"
    and same: "page_content dv = page_content dk"
    and ok: "\<forall>(d, s) \<in> set vector_docs. s \<noteq> - 1"
    and inj: "\<forall>d \<in> fst ` set vector_docs \<union> set bm25_docs.
                \<forall>d' \<in> fst ` set vector_docs \<union> set bm25_docs.
                  get_doc_id h d = get_doc_id h d' \<longrightarrow> page_content d = page_content d'"
  shows "\<exists>doc_scores ranked e.
           build_doc_scores h vector_docs bm25_docs = Inr doc_scores
         \<and> ranked_docs self h vector_docs bm25_docs = Inr ranked
         \<and> combine_results self h vector_docs bm25_docs query = Inr (map fst ranked)
         \<and> filter (\<lambda>p. page_content (doc (snd p)) = page_content dv) doc_scores
             = [(get_doc_id h dv, e)]
         \<and> (\<exists>d' s'. (d', s') \<in> set vector_docs \<and> page_content d' = page_content dv
                \<and> vector_score e = 1 / (1 + s'))
         \<and> (\<exists>r < length bm25_docs. page_content (bm25_docs ! r) = page_content dv
                \<and> bm25_score e = 1 / (real r + 1))
         \<and> vector_score e \<noteq> 0 \<and> bm25_score e \<noteq> 0
         \<and> filter (\<lambda>x. page_content (fst x) = page_content dv) ranked
             = [(doc e, vector_weight self * vector_score e + bm25_weight self * bm25_score e)]
         \<and> filter (\<lambda>d. page_content d = page_content dv) (map fst ranked) = [doc e]"
proof -
  let ?key = "get_doc_id h dv"
  let ?D = "fst ` set vector_docs \<union> set bm25_docs"
  let ?g = "\<lambda>(doc_id, scores). (doc scores, combined_score self scores)"
  from ok obtain ds where
    build: "build_doc_scores h vector_docs bm25_docs = Inr ds" and
    dist: "distinct (map fst ds)" and
    keys: "fst ` set ds = get_doc_id h ` ?D" and
    ids: "\<forall>(key, e) \<in> set ds. get_doc_id h (doc e) = key" and
    scores: "\<forall>(key, e) \<in> set ds.
        vector_score e = (case vector_distance h vector_docs key of Some s \<Rightarrow> 1 / (1 + s) | None \<Rightarrow> 0)
      \<and> bm25_score e = (case keyword_rank h 0 bm25_docs key of Some r \<Rightarrow> 1 / (real r + 1) | None \<Rightarrow> 0)"
    by (rule build_doc_scores_props)
  have docs: "\<forall>(key, e) \<in> set ds. doc e \<in> ?D"
    using build by (rule build_doc_scores_docs)
  from v have dvD: "dv \<in> ?D" by force
  have r: "ranked_docs self h vector_docs bm25_docs = Inr (sort_key (\<lambda>x. - snd x) (map ?g ds))"
    by (simp add: ranked_docs_def build)
  have c: "combine_results self h vector_docs bm25_docs query
             = Inr (map fst (sort_key (\<lambda>x. - snd x) (map ?g ds)))"
    by (simp add: combine_results_def r)
  have same_id: "get_doc_id h dk = ?key"
    using same by (simp add: get_doc_id_def)
  from v have vin: "?key \<in> get_doc_id h ` fst ` set vector_docs" by force
  from b have "get_doc_id h dk \<in> get_doc_id h ` set bm25_docs" by (rule imageI)
  with same_id have bin: "?key \<in> get_doc_id h ` set bm25_docs" by simp
  from vin keys have "?key \<in> fst ` set ds" by auto
  then obtain e where look: "map_of ds ?key = Some e"
    by (cases "map_of ds ?key") (auto simp: map_of_eq_None_iff)
  then have mem: "(?key, e) \<in> set ds" by (rule map_of_SomeD)
  have by_key: "filter (\<lambda>p. fst p = ?key) ds = [(?key, e)]"
    using dist look by (rule map_of_filter_key)
  have iff: "(page_content (doc (snd p)) = page_content dv) = (fst p = ?key)" if "p \<in> set ds" for p
  proof -
    obtain key' e' where p: "p = (key', e')" by (cases p)
    from that p ids have i: "get_doc_id h (doc e') = key'" by auto
    from that p docs have d: "doc e' \<in> ?D" by auto
    show ?thesis
    proof
      assume "page_content (doc (snd p)) = page_content dv"
      then have "get_doc_id h (doc e') = ?key" by (simp add: p get_doc_id_def)
      with i show "fst p = ?key" by (simp add: p)
    next
      assume "fst p = ?key"
      with i p have "get_doc_id h (doc e') = get_doc_id h dv" by simp
      with inj d dvD have "page_content (doc e') = page_content dv" by blast
      then show "page_content (doc (snd p)) = page_content dv" by (simp add: p)
    qed
  qed
  have by_content: "filter (\<lambda>p. page_content (doc (snd p)) = page_content dv) ds = [(?key, e)]"
  proof -
    have "filter (\<lambda>p. page_content (doc (snd p)) = page_content dv) ds
            = filter (\<lambda>p. fst p = ?key) ds"
      by (rule filter_cong) (simp_all add: iff)
    with by_key show ?thesis by simp
  qed
  from vin obtain s' where s': "vector_distance h vector_docs ?key = Some s'"
    by (cases "vector_distance h vector_docs ?key") (auto simp: vector_distance_None)
  then obtain d' where d': "(d', s') \<in> set vector_docs" "get_doc_id h d' = ?key"
    using vector_distance_Some by blast
  from d'(1) have "d' \<in> ?D" by force
  with inj dvD d'(2) have cd': "page_content d' = page_content dv" by blast
  from scores mem s' have vs: "vector_score e = 1 / (1 + s')" by auto
  from ok d'(1) have "s' \<noteq> - 1" by auto
  then have "1 + s' \<noteq> 0" by simp
  with vs have vs0: "vector_score e \<noteq> 0" by simp
  from bin obtain rk where rk: "keyword_rank h 0 bm25_docs ?key = Some rk"
    by (cases "keyword_rank h 0 bm25_docs ?key") (auto simp: keyword_rank_None)
  from keyword_rank_Some [OF rk] have rlt: "rk < length bm25_docs"
    and rid: "get_doc_id h (bm25_docs ! rk) = ?key" by simp_all
  from rlt have "bm25_docs ! rk \<in> ?D" by simp
  with inj dvD rid have crk: "page_content (bm25_docs ! rk) = page_content dv" by blast
  from scores mem rk have bs: "bm25_score e = 1 / (real rk + 1)" by auto
  have "real rk + 1 \<noteq> 0" by (simp add: add_nonneg_eq_0_iff)
  with bs have bs0: "bm25_score e \<noteq> 0" by simp
  have franked: "filter (\<lambda>x. page_content (fst x) = page_content dv)
                   (sort_key (\<lambda>x. - snd x) (map ?g ds))
                 = [(doc e, vector_weight self * vector_score e + bm25_weight self * bm25_score e)]"
  proof -
    have "filter (\<lambda>x. page_content (fst x) = page_content dv) (map ?g ds)
            = map ?g (filter (\<lambda>p. page_content (doc (snd p)) = page_content dv) ds)"
      by (simp add: filter_map comp_def case_prod_unfold)
    also have "\<dots> = [(doc e, vector_weight self * vector_score e + bm25_weight self * bm25_score e)]"
      by (simp add: by_content combined_score_def)
    finally show ?thesis
      by (simp add: filter_sort)
  qed
  have fout: "filter (\<lambda>d. page_content d = page_content dv)
                (map fst (sort_key (\<lambda>x. - snd x) (map ?g ds))) = [doc e]"
  proof -
    have "filter (\<lambda>d. page_content d = page_content dv)
            (map fst (sort_key (\<lambda>x. - snd x) (map ?g ds)))
          = map fst (filter (\<lambda>x. page_content (fst x) = page_content dv)
                       (sort_key (\<lambda>x. - snd x) (map ?g ds)))"
      by (simp add: filter_map comp_def)
    then show ?thesis by (simp add: franked)
  qed
  have vpart: "\<exists>d' s'. (d', s') \<in> set vector_docs \<and> page_content d' = page_content dv
                \<and> vector_score e = 1 / (1 + s')"
    using d'(1) cd' vs by blast
  have bpart: "\<exists>r < length bm25_docs. page_content (bm25_docs ! r) = page_content dv
                \<and> bm25_score e = 1 / (real r + 1)"
    using rlt crk bs by blast
  show ?thesis
    apply (rule exI [of _ ds])
    apply (rule exI [of _ "sort_key (\<lambda>x. - snd x) (map ?g ds)"])
    apply (rule exI [of _ e])
    apply (intro conjI)
            apply (rule build)
           apply (rule r)
          apply (rule c)
         apply (rule by_content)
        apply (rule vpart)
       apply (rule bpart)
      apply (rule vs0)
     apply (rule bs0)
    apply (rule franked)
    apply (rule fout)
    done
qed

theorem dedup_same_content_witness:
  "\<exists>doc_scores ranked e.
     build_doc_scores hash_seed0 (sample_vectorstore [] 2) (sample_bm25 []) = Inr doc_scores
   \<and> ranked_docs (sample_retriever 1) hash_seed0 (sample_vectorstore [] 2) (sample_bm25 [])
       = Inr ranked
   \<and> combine_results (sample_retriever 1) hash_seed0 (sample_vectorstore [] 2) (sample_bm25 []) []
       = Inr (map fst ranked)
   \<and> filter (\<lambda>p. page_content (doc (snd p)) = page_content doc_a) doc_scores
       = [(get_doc_id hash_seed0 doc_a, e)]
   \<and> (\<exists>d' s'. (d', s') \<in> set (sample_vectorstore [] 2) \<and> page_content d' = page_content doc_a
          \<and> vector_score e = 1 / (1 + s'))
   \<and> (\<exists>r < length (sample_bm25 []). page_content (sample_bm25 [] ! r) = page_content doc_a
          \<and> bm25_score e = 1 / (real r + 1))
   \<and> vector_score e \<noteq> 0 \<and> bm25_score e \<noteq> 0
   \<and> filter (\<lambda>x. page_content (fst x) = page_content doc_a) ranked
       = [(doc e, vector_weight (sample_retriever 1) * vector_score e
                  + bm25_weight (sample_retriever 1) * bm25_score e)]
   \<and> filter (\<lambda>d. page_content d = page_content doc_a) (map fst ranked) = [doc e]"
proof -
  have v: "(doc_a, 1 / 10) \<in> set (sample_vectorstore [] 2)"
    by (simp add: sample_vectorstore_def)
  have b: "doc_a2 \<in> set (sample_bm25 [])"
    by (simp add: sample_bm25_def)
  have same: "page_content doc_a = page_content doc_a2"
    by (simp add: doc_a_def doc_a2_def mk_doc_def)
  have ok: "\<forall>(d, s) \<in> set (sample_vectorstore [] 2). s \<noteq> - 1"
    by (simp add: sample_vectorstore_def)
  have ida: "get_doc_id hash_seed0 doc_a = 4644417185603328019"
    and idb: "get_doc_id hash_seed0 doc_b = - 8420940591063670578"
    and idc: "get_doc_id hash_seed0 doc_c = - 2649405227494141838"
    and ida2: "get_doc_id hash_seed0 doc_a2 = 4644417185603328019"
    by (simp_all add: get_doc_id_def doc_a_def doc_b_def doc_c_def doc_a2_def mk_doc_def
        hash_seed0_a hash_seed0_b hash_seed0_c)
  have inj: "\<forall>d \<in> fst ` set (sample_vectorstore [] 2) \<union> set (sample_bm25 []).
               \<forall>d' \<in> fst ` set (sample_vectorstore [] 2) \<union> set (sample_bm25 []).
                 get_doc_id hash_seed0 d = get_doc_id hash_seed0 d'
                   \<longrightarrow> page_content d = page_content d'"
    by (simp add: sample_vectorstore_def sample_bm25_def ida idb idc ida2 same)
  from dedup_same_content [OF v b same ok inj] show ?thesis .
qed

section \<open>Properties of retrieval\<close>

text \<open>
  C1, as stated, counts the unique matched documents. The retrieval counts identities:
  with \<open>k = 5\<close>, the vector backend returning \<open>long1\<close> and the keyword backend
  \<open>long2\<close>, two documents of different content are matched and one is returned.
\<close>

theorem retrieve_count_counterexample:
  "get_relevant_documents (sample_retriever 5) hash_seed0 prefix_vectorstore prefix_bm25 []
     = Inr [long1]
   \<and> card (page_content `
        (fst ` set (prefix_vectorstore [] (5 * 2)) \<union> set (prefix_bm25 []))) = 2"
  by (simp add: get_relevant_documents_def combine_results_def ranked_docs_def
      build_doc_scores_def get_doc_id_def combined_score_def sample_retriever_def
      prefix_vectorstore_def prefix_bm25_def long1_def long2_def mk_doc_def Let_def
      slice_to_def)

text \<open>
  C1, amended: for every query and every \<open>k \<ge> 0\<close>, when both backends return and no
  distance is \<open>-1\<close>, the retrieval returns the first \<open>k\<close> documents of the ranking;
  the ranking holds every entry of the dictionary with the score \<open>vector_weight *
  vector_score + bm25_weight * bm25_score\<close> and is sorted by that score in descending
  order; the number of documents returned is at most \<open>k\<close> and equals the minimum of
  \<open>k\<close> and the number of different identities among the hits of both backends.
\<close>

theorem retrieve_count:
  assumes nonneg: "0 \<le> k self"
    and ok: "\<forall>(d, s) \<in> set (vectorstore query (k self * 2)). s \<noteq> - 1"
  shows "\<exists>doc_scores ranked out.
           build_doc_scores h (vectorstore query (k self * 2)) (bm25_retriever query) = Inr doc_scores
         \<and> ranked_docs self h (vectorstore query (k self * 2)) (bm25_retriever query) = Inr ranked
         \<and> mset ranked =
             mset (map (\<lambda>(key, e). (doc e,
                     vector_weight self * vector_score e + bm25_weight self * bm25_score e))
                   doc_scores)
         \<and> sorted_wrt (\<ge>) (map snd ranked)
         \<and> get_relevant_documents self h vectorstore bm25_retriever query = Inr out
         \<and> out = take (nat (k self)) (map fst ranked)
         \<and> int (length out) \<le> k self
         \<and> length out =
             min (nat (k self))
               (card (get_doc_id h `
                  (fst ` set (vectorstore query (k self * 2)) \<union> set (bm25_retriever query))))"
proof -
  let ?vds = "vectorstore query (k self * 2)"
  let ?bds = "bm25_retriever query"
  let ?g = "\<lambda>(key, e). (doc e,
              vector_weight self * vector_score e + bm25_weight self * bm25_score e)"
  from ok obtain ds where
    build: "build_doc_scores h ?vds ?bds = Inr ds" and
    dist: "distinct (map fst ds)" and
    keys: "fst ` set ds = get_doc_id h ` (fst ` set ?vds \<union> set ?bds)"
    by (rule build_doc_scores_props)
  from ranked_docs_props [OF build, of self query] obtain ranked where
    r: "ranked_docs self h ?vds ?bds = Inr ranked" and
    c: "combine_results self h ?vds ?bds query = Inr (map fst ranked)" and
    l: "length ranked = length ds" and
    s: "sorted_wrt (\<ge>) (map snd ranked)" and
    m: "mset ranked = mset (map (\<lambda>(doc_id, scores). (doc scores, combined_score self scores)) ds)"
    by blast
  have g: "(\<lambda>(doc_id, scores). (doc scores, combined_score self scores)) = ?g"
    by (simp add: combined_score_def)
  have m': "mset ranked = mset (map ?g ds)"
    using m unfolding g .
  let ?out = "take (nat (k self)) (map fst ranked)"
  have gr: "get_relevant_documents self h vectorstore bm25_retriever query = Inr ?out"
    using nonneg by (simp add: get_relevant_documents_def c slice_to_def)
  have "card (fst ` set ds) = length ds"
    using dist distinct_card [of "map fst ds"] by simp
  with keys l have n: "length ranked = card (get_doc_id h ` (fst ` set ?vds \<union> set ?bds))"
    by simp
  have len: "length ?out = min (nat (k self)) (card (get_doc_id h ` (fst ` set ?vds \<union> set ?bds)))"
    using n by (simp add: min.commute)
  have le: "int (length ?out) \<le> k self"
    using nonneg by simp
  show ?thesis
    apply (rule exI [of _ ds])
    apply (rule exI [of _ ranked])
    apply (rule exI [of _ ?out])
    apply (intro conjI)
           apply (rule build)
          apply (rule r)
         apply (rule m')
        apply (rule s)
       apply (rule gr)
      apply (rule refl)
     apply (rule le)
    apply (rule len)
    done
qed

theorem retrieve_count_witness:
  "\<exists>out.
     get_relevant_documents (sample_retriever 1) hash_seed0 sample_vectorstore sample_bm25 []
       = Inr out
   \<and> length out = 1"
proof -
  have nonneg: "0 \<le> k (sample_retriever 1)"
    by (simp add: sample_retriever_def)
  have ok: "\<forall>(d, s) \<in> set (sample_vectorstore [] (k (sample_retriever 1) * 2)). s \<noteq> - 1"
    by (simp add: sample_vectorstore_def)
  have three: "card (get_doc_id hash_seed0 `
        (fst ` set (sample_vectorstore [] (k (sample_retriever 1) * 2)) \<union> set (sample_bm25 []))) = 3"
    by (simp add: get_doc_id_def hash_seed0_a hash_seed0_b hash_seed0_c mk_doc_def
        sample_vectorstore_def sample_bm25_def doc_a_def doc_b_def doc_c_def doc_a2_def)
  from retrieve_count [where self = "sample_retriever 1" and vectorstore = sample_vectorstore
      and query = "[]" and h = hash_seed0 and bm25_retriever = sample_bm25, OF nonneg ok] three
  show ?thesis
    by (auto simp: sample_retriever_def)
qed

section \<open>Properties of reranking\<close>

lemma term_set_empty_text: "term_set lc isw [] = {}"
  by (simp add: term_set_def str_lower_def)

lemma finite_term_set: "finite (term_set lc isw text)"
  by (simp add: term_set_def)

text \<open>
  C10: for a document whose content is the empty string, the relevance computation
  raises the division error for every query with at least one term, and returns
  \<open>0\<close> through the guard on the empty union exactly when the query has no term.
  This holds for all tables \<open>lc\<close> and \<open>isw\<close>.
\<close>

theorem empty_document_raises:
  assumes "page_content d = []"
  shows "calculate_relevance_score lc isw (term_set lc isw query) d =
           (if term_set lc isw query = {} then Inr 0 else Inl ZeroDivisionError)"
  using assms
  by (simp add: calculate_relevance_score_def term_set_empty_text finite_term_set
      str_lower_def Let_def)

theorem empty_document_raises_witness:
  "page_content empty_doc = []
   \<and> term_set ascii_lc ascii_isw query_a = {[97]}
   \<and> calculate_relevance_score ascii_lc ascii_isw (term_set ascii_lc ascii_isw query_a) empty_doc
       = Inl ZeroDivisionError"
proof -
  have e: "page_content empty_doc = []"
    by (simp add: empty_doc_def mk_doc_def)
  have t: "term_set ascii_lc ascii_isw query_a = {[97]}"
    by (simp add: term_set_def str_lower_def ascii_lc_def ascii_isw_def query_a_def)
  from empty_document_raises [OF e, of ascii_lc ascii_isw query_a] e t show ?thesis
    by simp
qed

text \<open>
  What the reranking does on a whole list: one empty document makes it raise when the
  query has a term; it returns when no document text is empty; and when it returns,
  the output is a permutation of the input in which documents of equal score keep
  their input order.
\<close>

lemma score_docs_Inl:
  "d \<in> set docs \<Longrightarrow> f d = Inl e \<Longrightarrow> \<exists>e'. score_docs f docs = Inl e'"
  by (induction docs) (auto split: sum.splits)

lemma score_docs_error:
  "score_docs f docs = Inl e \<Longrightarrow> \<exists>d \<in> set docs. f d = Inl e"
  by (induction docs) (auto split: sum.splits)

lemma calculate_relevance_score_error:
  "calculate_relevance_score lc isw qt d = Inl e \<Longrightarrow> e = ZeroDivisionError"
  by (auto simp: calculate_relevance_score_def Let_def split: if_splits)

lemma score_docs_Inr:
  "score_docs f docs = Inr scored \<Longrightarrow>
     map fst scored = docs \<and> (\<forall>x \<in> set scored. f (fst x) = Inr (snd x))"
  by (induction docs arbitrary: scored) (auto split: sum.splits)

lemma score_docs_total:
  "\<forall>d \<in> set docs. \<exists>s. f d = Inr s \<Longrightarrow> \<exists>scored. score_docs f docs = Inr scored"
  by (induction docs) (auto split: sum.splits)

lemma rerank_documents_raises:
  assumes "d \<in> set docs" and "page_content d = []" and "term_set lc isw query \<noteq> {}"
  shows "rerank_documents lc isw docs query = Inl ZeroDivisionError"
proof -
  from assms(2,3)
  have "calculate_relevance_score lc isw (term_set lc isw query) d = Inl ZeroDivisionError"
    by (simp add: empty_document_raises)
  with assms(1) obtain e' where
    "score_docs (calculate_relevance_score lc isw (term_set lc isw query)) docs = Inl e'"
    using score_docs_Inl by blast
  moreover from this have "e' = ZeroDivisionError"
    using score_docs_error calculate_relevance_score_error by blast
  ultimately show ?thesis
    by (simp add: rerank_documents_def)
qed

lemma rerank_documents_returns:
  assumes "\<forall>d \<in> set docs. str_lower lc (page_content d) \<noteq> []"
  shows "\<exists>out. rerank_documents lc isw docs query = Inr out"
proof -
  have "\<forall>d \<in> set docs. \<exists>s. calculate_relevance_score lc isw (term_set lc isw query) d = Inr s"
    using assms by (auto simp: calculate_relevance_score_def Let_def)
  then obtain scored where
    "score_docs (calculate_relevance_score lc isw (term_set lc isw query)) docs = Inr scored"
    using score_docs_total by blast
  then show ?thesis by (simp add: rerank_documents_def)
qed

lemma rerank_documents_perm_stable:
  assumes "rerank_documents lc isw docs query = Inr out"
  shows "mset out = mset docs"
    and "filter (\<lambda>d. calculate_relevance_score lc isw (term_set lc isw query) d = Inr v) out
          = filter (\<lambda>d. calculate_relevance_score lc isw (term_set lc isw query) d = Inr v) docs"
proof -
  let ?f = "calculate_relevance_score lc isw (term_set lc isw query)"
  from assms obtain scored where
    sc: "score_docs ?f docs = Inr scored" and
    out: "out = map fst (sort_key (\<lambda>x. - snd x) scored)"
    by (auto simp: rerank_documents_def Let_def split: sum.splits)
  from score_docs_Inr [OF sc] have
    docs: "map fst scored = docs" and
    sv: "\<forall>x \<in> set scored. ?f (fst x) = Inr (snd x)"
    by auto
  have "mset out = mset (map fst scored)"
    unfolding out by simp
  then show "mset out = mset docs" by (simp add: docs)
  have key: "(?f (fst x) = Inr v) = (- snd x = - v)" if "x \<in> set scored" for x
    using sv that by auto
  have "filter (\<lambda>d. ?f d = Inr v) out
          = map fst (filter (\<lambda>x. ?f (fst x) = Inr v) (sort_key (\<lambda>x. - snd x) scored))"
    unfolding out by (simp add: filter_map comp_def)
  also have "filter (\<lambda>x. ?f (fst x) = Inr v) (sort_key (\<lambda>x. - snd x) scored)
               = filter (\<lambda>x. - snd x = - v) (sort_key (\<lambda>x. - snd x) scored)"
    by (rule filter_cong) (simp_all add: key)
  also have "\<dots> = filter (\<lambda>x. - snd x = - v) scored"
    by (rule sort_key_stable)
  also have "\<dots> = filter (\<lambda>x. ?f (fst x) = Inr v) scored"
    by (rule filter_cong) (simp_all add: key)
  also have "map fst \<dots> = filter (\<lambda>d. ?f d = Inr v) (map fst scored)"
    by (simp add: filter_map comp_def)
  finally show "filter (\<lambda>d. ?f d = Inr v) out = filter (\<lambda>d. ?f d = Inr v) docs"
    by (simp add: docs)
qed

text \<open>
  C8 asks the reranking to return a permutation of every candidate list for every
  query. On the list of \<open>doc_a\<close> and a chunk with no text, with the query
  \<^verbatim>\<open>"a"\<close>, it raises instead of returning: the division by the length of the
  document text is the one division of the score that has no guard.
\<close>

theorem rerank_raises_on_empty_document:
  "rerank_documents ascii_lc ascii_isw [doc_a, empty_doc] query_a = Inl ZeroDivisionError"
  by (simp add: rerank_documents_def calculate_relevance_score_def term_set_def str_lower_def
      ascii_lc_def ascii_isw_def empty_doc_def query_a_def doc_a_def mk_doc_def Let_def)

section \<open>Properties of document identity\<close>

text \<open>
  C6, as stated, makes the identity a function of the content alone, the same in two
  runs of the program. The identity is the string hash of the interpreter, which is
  keyed by the secret of the process: the document with the text \<^verbatim>\<open>"a"\<close> has one
  identity in a run with the secret of \<^verbatim>\<open>PYTHONHASHSEED=0\<close> and another in a run with
  the secret of \<^verbatim>\<open>PYTHONHASHSEED=1\<close>.
\<close>

theorem doc_id_across_runs_counterexample:
  "get_doc_id hash_seed0 doc_a = 4644417185603328019
   \<and> get_doc_id hash_seed1 doc_a = - 3012895188637184397"
  by (simp add: get_doc_id_def doc_a_def mk_doc_def hash_seed0_a hash_seed1_a)

text \<open>
  C6, amended: within one run, that is for one hash function \<open>h\<close>, the identity is
  a function of the first hundred characters of the content alone: two documents whose
  contents agree on that prefix, and so any two documents with identical content,
  have equal identities, whatever their metadata.
\<close>

theorem doc_id_of_content:
  "(take 100 (page_content d1) = take 100 (page_content d2)
      \<longrightarrow> get_doc_id h d1 = get_doc_id h d2)
   \<and> (page_content d1 = page_content d2 \<longrightarrow> get_doc_id h d1 = get_doc_id h d2)
   \<and> get_doc_id h d1 = h (take 100 (page_content d1))"
  by (simp add: get_doc_id_def)

theorem doc_id_of_content_witness:
  "page_content doc_a = page_content doc_a2 \<and> doc_a \<noteq> doc_a2
   \<and> get_doc_id hash_seed1 doc_a = get_doc_id hash_seed1 doc_a2"
proof -
  have c: "page_content doc_a = page_content doc_a2"
    by (simp add: doc_a_def doc_a2_def mk_doc_def)
  have n: "doc_a \<noteq> doc_a2"
    by (simp add: doc_a_def doc_a2_def mk_doc_def)
  from doc_id_of_content [of doc_a doc_a2 hash_seed1] c n show ?thesis
    by blast
qed

end
